theory Spec2Isabelle
  imports Main
begin

section \<open>The sequence container \<open>sc::vector\<close> and its iterator\<close>

text \<open>
  The development follows \<^verbatim>\<open>source/include/vector.h\<close>. The class template
  \<^verbatim>\<open>sc::vector<T>\<close> owns one heap buffer \<^verbatim>\<open>m_storage\<close> and two counters,
  \<^verbatim>\<open>m_end\<close> (the size) and \<^verbatim>\<open>m_capacity\<close>. The buffer is a list whose length is
  the number of slots that \<^verbatim>\<open>new T[n]\<close> allocated; the counters are natural numbers
  (\<^verbatim>\<open>size_type\<close> is \<^verbatim>\<open>unsigned long\<close>; element counts are taken to stay below the
  range of the narrower loop counters the source uses, \<^verbatim>\<open>int\<close> and \<^verbatim>\<open>unsigned\<close>,
  so that no counter wraps, and \<^verbatim>\<open>new\<close> is taken to succeed).

  C++ gives no meaning to a read or write outside the allocated buffer. The model makes
  such an access a value, \<open>Buffer_overrun\<close>, next to the one exception the class throws,
  \<^verbatim>\<open>std::out_of_range\<close>. An operation that changes the container returns its outcome
  together with the container as it stands when the operation ends, also when it ends
  with an exception or an overrun: the counters are those the code had assigned by then,
  and the buffer is as it was before the loop or the write that overran.
\<close>

datatype error = Out_of_range | Buffer_overrun

record 'a vector =
  m_end :: nat
  m_capacity :: nat
  m_storage :: "'a list"

text \<open>
  \<^verbatim>\<open>new T[n]\<close>: \<open>n\<close> default-initialised slots. The default-initialised value of the
  element type is the constant \<open>default\<close> of the type class of that name.
\<close>

definition new_array :: "nat \<Rightarrow> 'a::default list" where
  "new_array n = replicate n default"

instantiation int :: default
begin
definition default_int :: int where
  "default_int = 0"
instance ..
end

text \<open>
  A pointer into a buffer is the signed distance, in slots, from the buffer's first
  slot. \<open>rd\<close> and \<open>wr\<close> are the read and the write through such a pointer.
\<close>

definition rd :: "'a list \<Rightarrow> int \<Rightarrow> error + 'a" where
  "rd buf i = (if 0 \<le> i \<and> i < int (length buf) then Inr (buf ! nat i) else Inl Buffer_overrun)"

definition wr :: "'a list \<Rightarrow> int \<Rightarrow> 'a \<Rightarrow> error + 'a list" where
  "wr buf i x = (if 0 \<le> i \<and> i < int (length buf) then Inr (buf[nat i := x]) else Inl Buffer_overrun)"

text \<open>
  Sequencing of two steps on a container: the second step runs on the state the first
  one left, unless the first one ended with an error.
\<close>

definition and_then ::
  "(error + 'r) \<times> 's \<Rightarrow> ('r \<Rightarrow> 's \<Rightarrow> (error + 'q) \<times> 's) \<Rightarrow> (error + 'q) \<times> 's" where
  "and_then m f = (case m of (Inl e, s) \<Rightarrow> (Inl e, s) | (Inr r, s) \<Rightarrow> f r s)"

subsection \<open>The loops over the buffer\<close>

text \<open>
  \<^verbatim>\<open>for (int i = 0; i < n; i++) dst[i] = src[i];\<close> (copy constructor, copy assignment,
  \<^verbatim>\<open>reserve\<close>, \<^verbatim>\<open>shrink_to_fit\<close>), started at \<open>i\<close>.
\<close>

function copy_loop :: "'a list \<Rightarrow> 'a list \<Rightarrow> nat \<Rightarrow> nat \<Rightarrow> error + 'a list" where
  "copy_loop src dst i n =
     (if i < n then
        (case rd src (int i) of
           Inl e \<Rightarrow> Inl e
         | Inr x \<Rightarrow>
             (case wr dst (int i) x of
                Inl e \<Rightarrow> Inl e
              | Inr dst' \<Rightarrow> copy_loop src dst' (i + 1) n))
      else Inr dst)"
  by pat_completeness auto
termination
  by (relation "measure (\<lambda>(src, dst, i, n). n - i)") auto

text \<open>
  \<^verbatim>\<open>for (auto i{0u}; i < count_; i++) m_storage[i] = value_;\<close> (\<^verbatim>\<open>assign\<close>).
\<close>

function fill_loop :: "'a list \<Rightarrow> nat \<Rightarrow> nat \<Rightarrow> 'a \<Rightarrow> error + 'a list" where
  "fill_loop buf i n x =
     (if i < n then
        (case wr buf (int i) x of
           Inl e \<Rightarrow> Inl e
         | Inr buf' \<Rightarrow> fill_loop buf' (i + 1) n x)
      else Inr buf)"
  by pat_completeness auto
termination
  by (relation "measure (\<lambda>(buf, i, n, x). n - i)") auto

text \<open>
  Copying a source sequence (an initializer list, or the range \<^verbatim>\<open>[first, last)\<close> of
  input iterators) into consecutive slots from slot \<open>i\<close> on: \<^verbatim>\<open>std::copy\<close> and the
  loops \<^verbatim>\<open>for (...; it < last; it++, i++) m_storage[i] = *it;\<close>.
\<close>

fun copy_in :: "'a list \<Rightarrow> 'a list \<Rightarrow> int \<Rightarrow> error + 'a list" where
  "copy_in [] buf i = Inr buf"
| "copy_in (x # xs) buf i =
     (case wr buf i x of
        Inl e \<Rightarrow> Inl e
      | Inr buf' \<Rightarrow> copy_in xs buf' (i + 1))"

text \<open>
  The descending shift \<^verbatim>\<open>for (it = ...; it > stop; it--) *it = *(it - k);\<close> that opens
  a gap (\<^verbatim>\<open>push_front\<close> and the \<^verbatim>\<open>insert\<close> overloads), and the ascending shift
  \<^verbatim>\<open>for (it = ...; it < stop; it++) *it = *(it + k);\<close> that closes one
  (\<^verbatim>\<open>pop_front\<close> and the \<^verbatim>\<open>erase\<close> overloads).
\<close>

function shift_right :: "'a list \<Rightarrow> int \<Rightarrow> int \<Rightarrow> int \<Rightarrow> error + 'a list" where
  "shift_right buf it stop k =
     (if it > stop then
        (case rd buf (it - k) of
           Inl e \<Rightarrow> Inl e
         | Inr x \<Rightarrow>
             (case wr buf it x of
                Inl e \<Rightarrow> Inl e
              | Inr buf' \<Rightarrow> shift_right buf' (it - 1) stop k))
      else Inr buf)"
  by pat_completeness auto
termination
  by (relation "measure (\<lambda>(buf, it, stop, k). nat (it - stop))") auto

function shift_left :: "'a list \<Rightarrow> int \<Rightarrow> int \<Rightarrow> int \<Rightarrow> error + 'a list" where
  "shift_left buf it stop k =
     (if it < stop then
        (case rd buf (it + k) of
           Inl e \<Rightarrow> Inl e
         | Inr x \<Rightarrow>
             (case wr buf it x of
                Inl e \<Rightarrow> Inl e
              | Inr buf' \<Rightarrow> shift_left buf' (it + 1) stop k))
      else Inr buf)"
  by pat_completeness auto
termination
  by (relation "measure (\<lambda>(buf, it, stop, k). nat (stop - it))") auto

subsection \<open>The iterator\<close>

text \<open>
  \<^verbatim>\<open>MyForwardIterator\<close> wraps one raw pointer, \<^verbatim>\<open>m_ptr\<close>. The operators below are
  the ones the container relies on; dereferencing goes through the buffer the
  iterator points into.
\<close>

datatype iterator = Iterator (m_ptr: int)

definition it_add :: "iterator \<Rightarrow> int \<Rightarrow> iterator" where
  "it_add it offset = Iterator (m_ptr it + offset)"

definition it_sub :: "iterator \<Rightarrow> int \<Rightarrow> iterator" where
  "it_sub it offset = Iterator (m_ptr it - offset)"

definition it_diff :: "iterator \<Rightarrow> iterator \<Rightarrow> int" where
  "it_diff lhs rhs = m_ptr lhs - m_ptr rhs"

definition it_less :: "iterator \<Rightarrow> iterator \<Rightarrow> bool" where
  "it_less ita itb = (m_ptr ita < m_ptr itb)"

definition it_greater :: "iterator \<Rightarrow> iterator \<Rightarrow> bool" where
  "it_greater ita itb = (m_ptr ita > m_ptr itb)"

definition it_ge :: "iterator \<Rightarrow> iterator \<Rightarrow> bool" where
  "it_ge ita itb = (m_ptr ita \<ge> m_ptr itb)"

definition it_le :: "iterator \<Rightarrow> iterator \<Rightarrow> bool" where
  "it_le ita itb = (m_ptr ita \<le> m_ptr itb)"

definition it_deref :: "'a list \<Rightarrow> iterator \<Rightarrow> error + 'a" where
  "it_deref buf it = rd buf (m_ptr it)"

text \<open>
  \<^verbatim>\<open>bool operator==(const iterator& rhs_) const { return *m_ptr == *rhs_.m_ptr; }\<close>
  and \<^verbatim>\<open>operator!=\<close>, which returns \<^verbatim>\<open>*m_ptr != *rhs_.m_ptr\<close>.
\<close>

definition it_eq :: "'a list \<Rightarrow> iterator \<Rightarrow> iterator \<Rightarrow> error + bool" where
  "it_eq buf lhs rhs =
     (case it_deref buf lhs of
        Inl e \<Rightarrow> Inl e
      | Inr x \<Rightarrow> (case it_deref buf rhs of Inl e \<Rightarrow> Inl e | Inr y \<Rightarrow> Inr (x = y)))"

definition it_neq :: "'a list \<Rightarrow> iterator \<Rightarrow> iterator \<Rightarrow> error + bool" where
  "it_neq buf lhs rhs =
     (case it_deref buf lhs of
        Inl e \<Rightarrow> Inl e
      | Inr x \<Rightarrow> (case it_deref buf rhs of Inl e \<Rightarrow> Inl e | Inr y \<Rightarrow> Inr (x \<noteq> y)))"

subsection \<open>Construction, iterators and capacity\<close>

text \<open>\<^verbatim>\<open>explicit vector(size_type cp = 0)\<close>.\<close>

definition vector_sized :: "nat \<Rightarrow> 'a::default vector" where
  "vector_sized cp = \<lparr>m_end = cp, m_capacity = cp, m_storage = new_array cp\<rparr>"

text \<open>
  \<^verbatim>\<open>vector(const std::initializer_list<T>&)\<close> and the range constructor: the buffer has
  one slot for each element supplied and receives the elements in order.
\<close>

definition vector_ilist :: "'a::default list \<Rightarrow> (error + unit) \<times> 'a vector" where
  "vector_ilist il =
     (let v = \<lparr>m_end = length il, m_capacity = length il, m_storage = new_array (length il)\<rparr>
      in case copy_in il (m_storage v) 0 of
           Inl e \<Rightarrow> (Inl e, v)
         | Inr buf \<Rightarrow> (Inr (), v\<lparr>m_storage := buf\<rparr>))"

text \<open>\<^verbatim>\<open>vector(const vector& vec)\<close>.\<close>

definition vector_copy :: "'a::default vector \<Rightarrow> (error + unit) \<times> 'a vector" where
  "vector_copy vec =
     (let v = \<lparr>m_end = m_end vec, m_capacity = m_capacity vec,
               m_storage = new_array (m_capacity vec)\<rparr>
      in case copy_loop (m_storage vec) (m_storage v) 0 (m_end vec) of
           Inl e \<Rightarrow> (Inl e, v)
         | Inr buf \<Rightarrow> (Inr (), v\<lparr>m_storage := buf\<rparr>))"

definition begin_it :: "'a vector \<Rightarrow> iterator" where
  "begin_it v = Iterator 0"

definition end_it :: "'a vector \<Rightarrow> iterator" where
  "end_it v = Iterator (int (m_end v))"

definition size_v :: "'a vector \<Rightarrow> nat" where
  "size_v v = m_end v"

definition capacity :: "'a vector \<Rightarrow> nat" where
  "capacity v = m_capacity v"

definition empty_v :: "'a vector \<Rightarrow> bool" where
  "empty_v v = (m_end v = 0)"

definition full :: "'a vector \<Rightarrow> bool" where
  "full v = (m_capacity v = m_end v)"

definition reserve :: "nat \<Rightarrow> 'a::default vector \<Rightarrow> (error + unit) \<times> 'a vector" where
  "reserve alocar v =
     (if alocar \<le> m_capacity v then (Inr (), v)
      else
        (case copy_loop (m_storage v) (new_array alocar) 0 (m_end v) of
           Inl e \<Rightarrow> (Inl e, v)
         | Inr newstorage \<Rightarrow> (Inr (), v\<lparr>m_capacity := alocar, m_storage := newstorage\<rparr>)))"

definition shrink_to_fit :: "'a::default vector \<Rightarrow> (error + unit) \<times> 'a vector" where
  "shrink_to_fit v =
     (if m_capacity v > m_end v then
        (case copy_loop (m_storage v) (new_array (m_end v)) 0 (m_end v) of
           Inl e \<Rightarrow> (Inl e, v)
         | Inr newstorage \<Rightarrow> (Inr (), v\<lparr>m_capacity := m_end v, m_storage := newstorage\<rparr>))
      else (Inr (), v))"

subsection \<open>Element access\<close>

definition back_v :: "'a vector \<Rightarrow> error + 'a" where
  "back_v v = (if m_end v > 0 then rd (m_storage v) (int (m_end v) - 1) else Inl Out_of_range)"

definition front :: "'a vector \<Rightarrow> error + 'a" where
  "front v = (if m_end v > 0 then rd (m_storage v) 0 else Inl Out_of_range)"

text \<open>\<^verbatim>\<open>operator[]\<close>: no check.\<close>

definition index :: "'a vector \<Rightarrow> nat \<Rightarrow> error + 'a" where
  "index v idx = rd (m_storage v) (int idx)"

definition at :: "'a vector \<Rightarrow> nat \<Rightarrow> error + 'a" where
  "at v idx =
     (if idx < size_v v \<and> idx \<ge> 0 then rd (m_storage v) (int idx) else Inl Out_of_range)"

subsection \<open>Modifiers\<close>

text \<open>
  \<^verbatim>\<open>clear\<close> runs the destructor of every live element and resets the size; the
  slots keep their (stale) contents. \<^verbatim>\<open>pop_back\<close> does the same for the last element.
\<close>

definition clear :: "'a vector \<Rightarrow> (error + unit) \<times> 'a vector" where
  "clear v = (Inr (), v\<lparr>m_end := 0\<rparr>)"

definition pop_back :: "'a vector \<Rightarrow> (error + unit) \<times> 'a vector" where
  "pop_back v = (if m_end v > 0 then (Inr (), v\<lparr>m_end := m_end v - 1\<rparr>) else (Inr (), v))"

definition push_front :: "'a \<Rightarrow> 'a::default vector \<Rightarrow> (error + unit) \<times> 'a vector" where
  "push_front st v =
     and_then
       (if m_capacity v = 0 then reserve 10 v
        else if full v then reserve (2 * m_capacity v) v
        else (Inr (), v))
       (\<lambda>_ v1.
          case shift_right (m_storage v1) (int (m_end v1)) 0 1 of
            Inl e \<Rightarrow> (Inl e, v1)
          | Inr buf \<Rightarrow>
              (case wr buf 0 st of
                 Inl e \<Rightarrow> (Inl e, v1\<lparr>m_storage := buf\<rparr>)
               | Inr buf' \<Rightarrow> (Inr (), v1\<lparr>m_storage := buf', m_end := m_end v1 + 1\<rparr>)))"

definition push_back :: "'a \<Rightarrow> 'a::default vector \<Rightarrow> (error + unit) \<times> 'a vector" where
  "push_back st v =
     and_then
       (if m_capacity v = 0 then reserve 10 v
        else if m_end v = m_capacity v then reserve (2 * m_capacity v) v
        else (Inr (), v))
       (\<lambda>_ v1.
          case wr (m_storage v1) (int (m_end v1)) st of
            Inl e \<Rightarrow> (Inl e, v1)
          | Inr buf \<Rightarrow> (Inr (), v1\<lparr>m_storage := buf, m_end := m_end v1 + 1\<rparr>))"

text \<open>
  \<^verbatim>\<open>pop_front\<close>: the loop is
  \<^verbatim>\<open>for (auto i{0u}; i < m_end; i++) m_storage[i] = m_storage[i+1];\<close>.
\<close>

definition pop_front :: "'a vector \<Rightarrow> (error + unit) \<times> 'a vector" where
  "pop_front v =
     (if m_end v > 0 then
        (case shift_left (m_storage v) 0 (int (m_end v)) 1 of
           Inl e \<Rightarrow> (Inl e, v)
         | Inr buf \<Rightarrow> (Inr (), v\<lparr>m_storage := buf, m_end := m_end v - 1\<rparr>))
      else (Inr (), v))"

text \<open>
  \<^verbatim>\<open>insert(iterator pos_, const_reference value_)\<close>; the overload that takes a
  \<^verbatim>\<open>const_iterator\<close> has the same body. The position is an iterator into the
  container's current buffer. The loop is
  \<^verbatim>\<open>for (iterator it = end()-1; it > pos_; it--) *it = *(it-1);\<close>.
\<close>

definition insert_value ::
  "iterator \<Rightarrow> 'a \<Rightarrow> 'a::default vector \<Rightarrow> (error + iterator) \<times> 'a vector" where
  "insert_value pos val v =
     (if it_less pos (begin_it v) \<or> it_greater pos (end_it v) then (Inl Out_of_range, v)
      else
        (let dif = it_diff pos (begin_it v) in
         and_then
           (if full v then reserve (m_capacity v * 2) v else (Inr (), v))
           (\<lambda>_ v1.
              let v2 = v1\<lparr>m_end := m_end v1 + 1\<rparr>;
                  pos' = it_add (begin_it v2) dif
              in case shift_right (m_storage v2) (m_ptr (it_sub (end_it v2) 1)) (m_ptr pos') 1 of
                   Inl e \<Rightarrow> (Inl e, v2)
                 | Inr buf \<Rightarrow>
                     (case wr buf (m_ptr pos') val of
                        Inl e \<Rightarrow> (Inl e, v2\<lparr>m_storage := buf\<rparr>)
                      | Inr buf' \<Rightarrow> (Inr pos', v2\<lparr>m_storage := buf'\<rparr>)))))"

text \<open>
  \<^verbatim>\<open>insert(iterator pos_, InputItr first_, InputItr last_)\<close> (and its
  \<^verbatim>\<open>const_iterator\<close> twin); \<open>src\<close> is the sequence \<^verbatim>\<open>[first_, last_)\<close>. The loops are
  \<^verbatim>\<open>for (auto it{end()-1}; it > pos_; it--, i--) m_storage[i] = *(it-dif);\<close>, where
  \<^verbatim>\<open>i\<close> is the index of \<^verbatim>\<open>it\<close>, and
  \<^verbatim>\<open>for (auto i{0u}; i < dif; i++) *(pos_+i) = *(first_+i);\<close>.
\<close>

definition insert_range ::
  "iterator \<Rightarrow> 'a list \<Rightarrow> 'a::default vector \<Rightarrow> (error + iterator) \<times> 'a vector" where
  "insert_range pos src v =
     (if it_less pos (begin_it v) \<or> it_greater pos (end_it v) then (Inl Out_of_range, v)
      else
        (let dif = length src;
             distancia = it_diff pos (begin_it v)
         in and_then
           (if full v \<or> m_end v + dif > m_capacity v then reserve (m_capacity v + dif) v
            else (Inr (), v))
           (\<lambda>_ v1.
              let v2 = v1\<lparr>m_end := m_end v1 + dif\<rparr>;
                  pos' = it_add (begin_it v2) distancia
              in case shift_right (m_storage v2) (m_ptr (it_sub (end_it v2) 1)) (m_ptr pos')
                        (int dif) of
                   Inl e \<Rightarrow> (Inl e, v2)
                 | Inr buf \<Rightarrow>
                     (case copy_in src buf (m_ptr pos') of
                        Inl e \<Rightarrow> (Inl e, v2\<lparr>m_storage := buf\<rparr>)
                      | Inr buf' \<Rightarrow> (Inr pos', v2\<lparr>m_storage := buf'\<rparr>)))))"

text \<open>
  \<^verbatim>\<open>insert(iterator pos_, const std::initializer_list<value_type>& ilist_)\<close> (and its
  \<^verbatim>\<open>const_iterator\<close> twin). It reserves only when the container is full, and its
  shift runs down to \<^verbatim>\<open>pos_\<close> itself:
  \<^verbatim>\<open>for (iterator it = end()-1; it >= pos_; it--) *it = *(it-n_elem);\<close>.
\<close>

definition insert_ilist ::
  "iterator \<Rightarrow> 'a list \<Rightarrow> 'a::default vector \<Rightarrow> (error + iterator) \<times> 'a vector" where
  "insert_ilist pos ilist v =
     (let distancia = it_diff pos (begin_it v);
          n_elem = length ilist
      in if it_less pos (begin_it v) \<or> it_greater pos (end_it v) then (Inl Out_of_range, v)
         else
           and_then
             (if full v then reserve (m_capacity v + n_elem) v else (Inr (), v))
             (\<lambda>_ v1.
                let v2 = v1\<lparr>m_end := m_end v1 + n_elem\<rparr>;
                    pos' = it_add (begin_it v2) distancia
                in case shift_right (m_storage v2) (m_ptr (it_sub (end_it v2) 1))
                          (m_ptr pos' - 1) (int n_elem) of
                     Inl e \<Rightarrow> (Inl e, v2)
                   | Inr buf \<Rightarrow>
                       (case copy_in ilist buf (m_ptr pos') of
                          Inl e \<Rightarrow> (Inl e, v2\<lparr>m_storage := buf\<rparr>)
                        | Inr buf' \<Rightarrow> (Inr pos', v2\<lparr>m_storage := buf'\<rparr>))))"

text \<open>
  \<^verbatim>\<open>assign(size_type count_, const_reference value_)\<close>, and the overloads that take an
  initializer list or a range (\<open>src\<close> is the sequence of elements supplied).
\<close>

definition assign :: "nat \<Rightarrow> 'a \<Rightarrow> 'a::default vector \<Rightarrow> (error + unit) \<times> 'a vector" where
  "assign count val v =
     (if count \<le> size_v v then
        (let v1 = v\<lparr>m_end := count\<rparr>
         in case fill_loop (m_storage v1) 0 count val of
              Inl e \<Rightarrow> (Inl e, v1)
            | Inr buf \<Rightarrow> (Inr (), v1\<lparr>m_storage := buf\<rparr>))
      else
        (let v1 = \<lparr>m_end = count, m_capacity = count, m_storage = new_array count\<rparr>
         in case fill_loop (m_storage v1) 0 count val of
              Inl e \<Rightarrow> (Inl e, v1)
            | Inr buf \<Rightarrow> (Inr (), v1\<lparr>m_storage := buf\<rparr>)))"

definition assign_ilist :: "'a list \<Rightarrow> 'a::default vector \<Rightarrow> (error + unit) \<times> 'a vector" where
  "assign_ilist ilist v =
     (if length ilist \<le> size_v v then
        (let v1 = v\<lparr>m_end := length ilist\<rparr>
         in case copy_in ilist (m_storage v1) 0 of
              Inl e \<Rightarrow> (Inl e, v1)
            | Inr buf \<Rightarrow> (Inr (), v1\<lparr>m_storage := buf\<rparr>))
      else
        (let v1 = \<lparr>m_end = length ilist, m_capacity = length ilist,
                   m_storage = new_array (length ilist)\<rparr>
         in case copy_in ilist (m_storage v1) 0 of
              Inl e \<Rightarrow> (Inl e, v1)
            | Inr buf \<Rightarrow> (Inr (), v1\<lparr>m_storage := buf\<rparr>)))"

definition assign_range :: "'a list \<Rightarrow> 'a::default vector \<Rightarrow> (error + unit) \<times> 'a vector" where
  "assign_range src v =
     (let dif = length src
      in if dif \<le> size_v v then
           (let v1 = v\<lparr>m_end := dif\<rparr>
            in case copy_in src (m_storage v1) 0 of
                 Inl e \<Rightarrow> (Inl e, v1)
               | Inr buf \<Rightarrow> (Inr (), v1\<lparr>m_storage := buf\<rparr>))
         else
           (let v1 = \<lparr>m_end = dif, m_capacity = dif, m_storage = new_array dif\<rparr>
            in case copy_in src (m_storage v1) 0 of
                 Inl e \<Rightarrow> (Inl e, v1)
               | Inr buf \<Rightarrow> (Inr (), v1\<lparr>m_storage := buf\<rparr>)))"

text \<open>
  \<^verbatim>\<open>erase(iterator first, iterator last)\<close> and \<^verbatim>\<open>erase(iterator pos)\<close> (and their
  \<^verbatim>\<open>const_iterator\<close> twins). The loops are
  \<^verbatim>\<open>for (iterator it = first; it < end()-dif; it++) *it = *(it+dif);\<close> and
  \<^verbatim>\<open>for (iterator it = pos; it < end()-1; ++it) *it = *(it+1);\<close>.
\<close>

definition erase_range ::
  "iterator \<Rightarrow> iterator \<Rightarrow> 'a vector \<Rightarrow> (error + iterator) \<times> 'a vector" where
  "erase_range it_first it_last v =
     (let dif = it_diff it_last it_first
      in if it_greater it_first it_last \<or> (it_less it_first (begin_it v) \<or> it_greater it_last (end_it v))
         then (Inl Out_of_range, v)
         else
           (case shift_left (m_storage v) (m_ptr it_first) (m_ptr (it_sub (end_it v) dif)) dif of
              Inl e \<Rightarrow> (Inl e, v)
            | Inr buf \<Rightarrow> (Inr it_first, v\<lparr>m_storage := buf, m_end := nat (int (m_end v) - dif)\<rparr>)))"

definition erase :: "iterator \<Rightarrow> 'a vector \<Rightarrow> (error + iterator) \<times> 'a vector" where
  "erase pos v =
     (if it_ge pos (begin_it v) \<and> it_less pos (end_it v) then
        (case shift_left (m_storage v) (m_ptr pos) (m_ptr (it_sub (end_it v) 1)) 1 of
           Inl e \<Rightarrow> (Inl e, v)
         | Inr buf \<Rightarrow> (Inr pos, v\<lparr>m_storage := buf, m_end := m_end v - 1\<rparr>))
      else (Inl Out_of_range, v))"

text \<open>
  Copy assignment \<^verbatim>\<open>operator=(const vector& vec)\<close> from another object; assigning an
  object to itself returns at once and leaves it as it is.
\<close>

definition copy_assign :: "'a::default vector \<Rightarrow> 'a vector \<Rightarrow> (error + unit) \<times> 'a vector" where
  "copy_assign vec v =
     (if m_end vec \<le> m_capacity v then
        (case copy_loop (m_storage vec) (m_storage v) 0 (m_end vec) of
           Inl e \<Rightarrow> (Inl e, v)
         | Inr buf \<Rightarrow> (Inr (), v\<lparr>m_storage := buf, m_end := m_end vec\<rparr>))
      else
        (case copy_loop (m_storage vec) (new_array (m_end vec)) 0 (m_end vec) of
           Inl e \<Rightarrow> (Inl e, v)
         | Inr m_storage_maior \<Rightarrow>
             (Inr (), \<lparr>m_end = m_end vec, m_capacity = m_end vec, m_storage = m_storage_maior\<rparr>)))"

text \<open>The friend function \<^verbatim>\<open>swap\<close> exchanges the three members of its arguments.\<close>

definition swap_v :: "'a vector \<Rightarrow> 'a vector \<Rightarrow> 'a vector \<times> 'a vector" where
  "swap_v first second =
     (first\<lparr>m_end := m_end second, m_capacity := m_capacity second,
              m_storage := m_storage second\<rparr>,
      second\<lparr>m_end := m_end first, m_capacity := m_capacity first,
               m_storage := m_storage first\<rparr>)"

subsection \<open>Equality of containers\<close>




subsection \<open>Sequences of calls\<close>

text \<open>
  The calls that change a container, each with its arguments, and the container a call
  leaves behind. \<open>Swap other\<close> is \<^verbatim>\<open>swap(v, other)\<close> seen from \<open>v\<close>, and
  \<open>Copy_assign vec\<close> is \<^verbatim>\<open>v = vec\<close> for another object \<open>vec\<close>.
\<close>

datatype 'a call =
    Clear
  | Push_front 'a
  | Push_back 'a
  | Pop_back
  | Pop_front
  | Insert_value iterator 'a
  | Insert_range iterator "'a list"
  | Insert_ilist iterator "'a list"
  | Reserve nat
  | Shrink_to_fit
  | Assign nat 'a
  | Assign_ilist "'a list"
  | Assign_range "'a list"
  | Erase iterator
  | Erase_range iterator iterator
  | Copy_assign "'a vector"
  | Swap "'a vector"

fun run :: "'a::default call \<Rightarrow> 'a vector \<Rightarrow> 'a vector" where
  "run Clear v = snd (clear v)"
| "run (Push_front x) v = snd (push_front x v)"
| "run (Push_back x) v = snd (push_back x v)"
| "run Pop_back v = snd (pop_back v)"
| "run Pop_front v = snd (pop_front v)"
| "run (Insert_value pos x) v = snd (insert_value pos x v)"
| "run (Insert_range pos src) v = snd (insert_range pos src v)"
| "run (Insert_ilist pos ilist) v = snd (insert_ilist pos ilist v)"
| "run (Reserve n) v = snd (reserve n v)"
| "run Shrink_to_fit v = snd (shrink_to_fit v)"
| "run (Assign n x) v = snd (assign n x v)"
| "run (Assign_ilist ilist) v = snd (assign_ilist ilist v)"
| "run (Assign_range src) v = snd (assign_range src v)"
| "run (Erase pos) v = snd (erase pos v)"
| "run (Erase_range it_first it_last) v = snd (erase_range it_first it_last v)"
| "run (Copy_assign vec) v = snd (copy_assign vec v)"
| "run (Swap other) v = fst (swap_v v other)"

text \<open>
  The calls after which the capacity can be smaller than before: \<^verbatim>\<open>shrink_to_fit\<close>,
  \<^verbatim>\<open>swap\<close>, and an \<^verbatim>\<open>assign\<close> of more elements than the size but fewer than the
  capacity.
\<close>

fun may_lower_capacity :: "'a call \<Rightarrow> 'a vector \<Rightarrow> bool" where
  "may_lower_capacity Shrink_to_fit v = True"
| "may_lower_capacity (Swap other) v = True"
| "may_lower_capacity (Assign n x) v = (size_v v < n \<and> n < capacity v)"
| "may_lower_capacity (Assign_ilist ilist) v = (size_v v < length ilist \<and> length ilist < capacity v)"
| "may_lower_capacity (Assign_range src) v = (size_v v < length src \<and> length src < capacity v)"
| "may_lower_capacity c v = False"

subsection \<open>Basic facts\<close>

text \<open>
  The loop equations are unfolded on demand only. The invariant \<open>vector_inv\<close> ties the two
  counters to the buffer: the size is at most the capacity, and the capacity is the
  number of slots allocated. The live elements of a container are the first \<open>m_end\<close>
  slots of its buffer.
\<close>

declare copy_loop.simps [simp del]
declare fill_loop.simps [simp del]
declare shift_right.simps [simp del]
declare shift_left.simps [simp del]

definition vector_inv :: "'a vector \<Rightarrow> bool" where
  "vector_inv v = (m_end v \<le> m_capacity v \<and> length (m_storage v) = m_capacity v)"

definition live :: "'a vector \<Rightarrow> 'a list" where
  "live v = take (m_end v) (m_storage v)"

lemmas it_defs = begin_it_def end_it_def it_less_def it_greater_def it_ge_def it_le_def
  it_diff_def it_add_def it_sub_def it_deref_def



lemma reserve_capacity: "m_capacity v \<le> m_capacity (snd (reserve n v))"
  by (simp add: reserve_def split: sum.splits)

lemma and_then_capacity:
  assumes "m_capacity v \<le> m_capacity (snd m)"
    and "\<And>r s. m_capacity s \<le> m_capacity (snd (f r s))"
  shows "m_capacity v \<le> m_capacity (snd (and_then m f))"
proof (cases m)
  case (Pair r s)
  then show ?thesis
    using assms(1) assms(2)[of s] by (cases r) (auto simp: and_then_def intro: order_trans)
qed

section \<open>What the loops and the modifiers compute\<close>

text \<open>
  On a buffer that is long enough, the copy loop and the two shifts by one slot return
  the buffer described below; the ascending shift overruns as soon as its bound is not a
  slot of the buffer, because its last round reads the slot at the bound.
\<close>

lemma copy_loop_result:
  "i \<le> n \<Longrightarrow> n \<le> length src \<Longrightarrow> n \<le> length dst \<Longrightarrow>
   copy_loop src dst i n = Inr (take i dst @ take (n - i) (drop i src) @ drop n dst)"
proof (induction src dst i n rule: copy_loop.induct)
  case (1 src dst i n)
  show ?case
  proof (cases "i < n")
    case True
    let ?dst = "dst[i := src ! i]"
    have step: "copy_loop src dst i n = copy_loop src ?dst (i + 1) n"
      using True "1.prems" by (subst copy_loop.simps) (simp add: rd_def wr_def)
    have ih: "copy_loop src ?dst (i + 1) n =
        Inr (take (i + 1) ?dst @ take (n - (i + 1)) (drop (i + 1) src) @ drop n ?dst)"
      using True "1.prems" by (intro "1.IH"[of "src ! i" ?dst]) (simp_all add: rd_def wr_def)
    have "take (i + 1) ?dst = take i dst @ [src ! i]"
      using True "1.prems" by (simp add: take_Suc_conv_app_nth)
    moreover have "drop n ?dst = drop n dst"
      using True by simp
    moreover have "take (n - i) (drop i src) = src ! i # take (n - (i + 1)) (drop (i + 1) src)"
    proof -
      have "n - i = Suc (n - (i + 1))" using True by simp
      moreover have "drop i src = src ! i # drop (i + 1) src"
        using True "1.prems" by (simp add: Cons_nth_drop_Suc)
      ultimately show ?thesis by simp
    qed
    ultimately show ?thesis using step ih by simp
  next
    case False
    then show ?thesis using "1.prems" by (subst copy_loop.simps) simp
  qed
qed

lemma shift_left_result:
  "i \<le> s \<Longrightarrow> s < length buf \<Longrightarrow>
   shift_left buf (int i) (int s) 1 =
     Inr (take i buf @ take (s - i) (drop (i + 1) buf) @ drop s buf)"
proof (induction "s - i" arbitrary: i buf)
  case 0
  then show ?case by (subst shift_left.simps) simp
next
  case (Suc d)
  let ?buf = "buf[i := buf ! (i + 1)]"
  have lt: "i < s" using Suc.hyps(2) by simp
  have step: "shift_left buf (int i) (int s) 1 = shift_left ?buf (int (i + 1)) (int s) 1"
    using lt Suc.prems by (subst shift_left.simps) (simp add: rd_def wr_def nat_add_distrib add.commute)
  have ih: "shift_left ?buf (int (i + 1)) (int s) 1 =
      Inr (take (i + 1) ?buf @ take (s - (i + 1)) (drop (i + 1 + 1) ?buf) @ drop s ?buf)"
    using lt Suc.prems Suc.hyps(2) by (intro Suc.hyps(1)) simp_all
  have "take (i + 1) ?buf = take i buf @ [buf ! (i + 1)]"
    using lt Suc.prems by (simp add: take_Suc_conv_app_nth)
  moreover have "drop (i + 1 + 1) ?buf = drop (i + 1 + 1) buf" by simp
  moreover have "drop s ?buf = drop s buf" using lt by simp
  moreover have "take (s - i) (drop (i + 1) buf) =
      buf ! (i + 1) # take (s - (i + 1)) (drop (i + 1 + 1) buf)"
  proof -
    have "s - i = Suc (s - (i + 1))" using lt by simp
    moreover have "drop (i + 1) buf = buf ! (i + 1) # drop (i + 1 + 1) buf"
      using lt Suc.prems by (simp add: Cons_nth_drop_Suc)
    ultimately show ?thesis by simp
  qed
  ultimately show ?case using step ih by simp
qed

lemma shift_left_overrun:
  "i < s \<Longrightarrow> length buf \<le> s \<Longrightarrow> shift_left buf (int i) (int s) 1 = Inl Buffer_overrun"
proof (induction "s - i" arbitrary: i buf)
  case 0
  then show ?case by simp
next
  case (Suc d)
  show ?case
  proof (cases "i + 1 < length buf")
    case True
    let ?buf = "buf[i := buf ! (i + 1)]"
    have "shift_left buf (int i) (int s) 1 = shift_left ?buf (int (i + 1)) (int s) 1"
      using True Suc.prems by (subst shift_left.simps) (simp add: rd_def wr_def nat_add_distrib add.commute)
    also have "\<dots> = Inl Buffer_overrun"
      using True Suc.prems Suc.hyps(2) by (intro Suc.hyps(1)) simp_all
    finally show ?thesis .
  next
    case False
    then show ?thesis
      using Suc.prems by (subst shift_left.simps) (simp add: rd_def)
  qed
qed

lemma shift_right_result:
  "s \<le> i \<Longrightarrow> i < length buf \<Longrightarrow>
   shift_right buf (int i) (int s) 1 =
     Inr (take (s + 1) buf @ take (i - s) (drop s buf) @ drop (i + 1) buf)"
proof (induction "i - s" arbitrary: i buf)
  case 0
  then have "i = s" by simp
  then show ?case using "0.prems" by (subst shift_right.simps) (simp add: Cons_nth_drop_Suc take_Suc_conv_app_nth)
next
  case (Suc d)
  let ?buf = "buf[i := buf ! (i - 1)]"
  have lt: "s < i" using Suc.hyps(2) by simp
  have step: "shift_right buf (int i) (int s) 1 = shift_right ?buf (int (i - 1)) (int s) 1"
    using lt Suc.prems by (subst shift_right.simps) (simp add: rd_def wr_def nat_diff_distrib')
  have ih: "shift_right ?buf (int (i - 1)) (int s) 1 =
      Inr (take (s + 1) ?buf @ take (i - 1 - s) (drop s ?buf) @ drop (i - 1 + 1) ?buf)"
    using lt Suc.prems Suc.hyps(2) by (intro Suc.hyps(1)) simp_all
  have "take (s + 1) ?buf = take (s + 1) buf" using lt by simp
  moreover have "take (i - 1 - s) (drop s ?buf) = take (i - 1 - s) (drop s buf)"
    using lt Suc.prems by (simp add: drop_update_swap)
  moreover have "drop (i - 1 + 1) ?buf = buf ! (i - 1) # drop (i + 1) buf"
    using lt Suc.prems by (simp add: drop_update_swap Cons_nth_drop_Suc[symmetric])
  moreover have "take (i - s) (drop s buf) = take (i - 1 - s) (drop s buf) @ [buf ! (i - 1)]"
  proof -
    have "i - s = Suc (i - 1 - s)" using lt by simp
    moreover have "take (Suc (i - 1 - s)) (drop s buf) =
        take (i - 1 - s) (drop s buf) @ [drop s buf ! (i - 1 - s)]"
      using lt Suc.prems by (intro take_Suc_conv_app_nth) simp
    moreover have "drop s buf ! (i - 1 - s) = buf ! (i - 1)"
      using lt Suc.prems by simp
    ultimately show ?thesis by simp
  qed
  ultimately show ?case using step ih by simp
qed

text \<open>
  On a container that satisfies the invariant, \<^verbatim>\<open>reserve\<close>, the two pushes, the
  single-element \<^verbatim>\<open>insert\<close> into a container with capacity above 0, and \<^verbatim>\<open>erase\<close>
  succeed, keep the invariant and have the expected effect on the live elements and on
  the capacity. \<^verbatim>\<open>pop_front\<close> does so on a container that is not full.
\<close>

lemma reserve_spec:
  assumes "vector_inv v"
  shows "\<exists>v1. reserve n v = (Inr (), v1) \<and> vector_inv v1 \<and> m_end v1 = m_end v \<and>
    m_capacity v1 = max n (m_capacity v) \<and> live v1 = live v"
proof (cases "n \<le> m_capacity v")
  case True
  then show ?thesis using assms by (simp add: reserve_def max_def)
next
  case False
  have "copy_loop (m_storage v) (new_array n) 0 (m_end v) =
      Inr (take 0 (new_array n) @ take (m_end v - 0) (drop 0 (m_storage v)) @
           drop (m_end v) (new_array n))"
    using False assms by (intro copy_loop_result) (simp_all add: vector_inv_def new_array_def)
  then show ?thesis
    using False assms by (simp add: reserve_def vector_inv_def live_def new_array_def max_def)
qed

lemma push_back_spec:
  assumes "vector_inv v"
  shows "\<exists>v'. push_back x v = (Inr (), v') \<and> vector_inv v' \<and>
    capacity v' = (if capacity v = 0 then 10 else if full v then 2 * capacity v else capacity v) \<and>
    live v' = live v @ [x]"
proof -
  let ?g = "if m_capacity v = 0 then reserve 10 v
        else if m_end v = m_capacity v then reserve (2 * m_capacity v) v
        else (Inr (), v)"
  have "\<exists>v1. ?g = (Inr (), v1) \<and> vector_inv v1 \<and> m_end v1 = m_end v \<and> live v1 = live v \<and>
      m_end v1 < m_capacity v1 \<and>
      m_capacity v1 =
        (if capacity v = 0 then 10 else if full v then 2 * capacity v else capacity v)"
    using reserve_spec[OF assms, of 10] reserve_spec[OF assms, of "2 * m_capacity v"] assms
    by (auto simp: vector_inv_def capacity_def full_def)
  then obtain v1 where g: "?g = (Inr (), v1)" and inv1: "vector_inv v1"
    and e1: "m_end v1 = m_end v" and l1: "live v1 = live v" and lt: "m_end v1 < m_capacity v1"
    and c1: "m_capacity v1 =
        (if capacity v = 0 then 10 else if full v then 2 * capacity v else capacity v)"
    by blast
  have w: "wr (m_storage v1) (int (m_end v1)) x = Inr ((m_storage v1)[m_end v1 := x])"
    using inv1 lt by (simp add: wr_def vector_inv_def)
  have pb: "push_back x v = (Inr (), v1\<lparr>m_storage := (m_storage v1)[m_end v1 := x], m_end := m_end v1 + 1\<rparr>)"
    unfolding push_back_def g and_then_def using w by simp
  have "take (m_end v1 + 1) ((m_storage v1)[m_end v1 := x]) = take (m_end v1) (m_storage v1) @ [x]"
    using inv1 lt by (simp add: vector_inv_def take_Suc_conv_app_nth)
  then show ?thesis
    using pb inv1 lt c1 l1 e1 by (simp add: vector_inv_def live_def capacity_def)
qed

lemma length_live: "vector_inv v \<Longrightarrow> length (live v) = m_end v"
  by (simp add: live_def vector_inv_def)

lemma wr_length: "wr buf i x = Inr buf' \<Longrightarrow> length buf' = length buf"
  by (auto simp: wr_def split: if_splits)

lemma shift_right_length: "shift_right buf i s k = Inr buf' \<Longrightarrow> length buf' = length buf"
proof (induction buf i s k rule: shift_right.induct)
  case (1 buf it stop k)
  show ?case
  proof (cases "it > stop")
    case True
    then obtain y b1 where r: "rd buf (it - k) = Inr y" and w: "wr buf it y = Inr b1"
      and rec: "shift_right b1 (it - 1) stop k = Inr buf'"
      using "1.prems" by (subst (asm) shift_right.simps) (auto split: sum.splits)
    have "length buf' = length b1" using "1.IH"[OF True r w rec] .
    then show ?thesis using wr_length[OF w] by simp
  next
    case False
    then show ?thesis using "1.prems" by (subst (asm) shift_right.simps) simp
  qed
qed

lemma shift_left_length: "shift_left buf i s k = Inr buf' \<Longrightarrow> length buf' = length buf"
proof (induction buf i s k rule: shift_left.induct)
  case (1 buf it stop k)
  show ?case
  proof (cases "it < stop")
    case True
    then obtain y b1 where r: "rd buf (it + k) = Inr y" and w: "wr buf it y = Inr b1"
      and rec: "shift_left b1 (it + 1) stop k = Inr buf'"
      using "1.prems" by (subst (asm) shift_left.simps) (auto split: sum.splits)
    have "length buf' = length b1" using "1.IH"[OF True r w rec] .
    then show ?thesis using wr_length[OF w] by simp
  next
    case False
    then show ?thesis using "1.prems" by (subst (asm) shift_left.simps) simp
  qed
qed

lemma push_front_spec:
  assumes "vector_inv v"
  shows "\<exists>v'. push_front x v = (Inr (), v') \<and> vector_inv v' \<and>
    capacity v' = (if capacity v = 0 then 10 else if full v then 2 * capacity v else capacity v) \<and>
    live v' = x # live v"
proof -
  let ?g = "if m_capacity v = 0 then reserve 10 v
        else if full v then reserve (2 * m_capacity v) v
        else (Inr (), v)"
  have "\<exists>v1. ?g = (Inr (), v1) \<and> vector_inv v1 \<and> m_end v1 = m_end v \<and> live v1 = live v \<and>
      m_end v1 < m_capacity v1 \<and>
      m_capacity v1 =
        (if capacity v = 0 then 10 else if full v then 2 * capacity v else capacity v)"
    using reserve_spec[OF assms, of 10] reserve_spec[OF assms, of "2 * m_capacity v"] assms
    by (auto simp: vector_inv_def capacity_def full_def)
  then obtain v1 where g: "?g = (Inr (), v1)" and inv1: "vector_inv v1"
    and e1: "m_end v1 = m_end v" and l1: "live v1 = live v" and lt: "m_end v1 < m_capacity v1"
    and c1: "m_capacity v1 =
        (if capacity v = 0 then 10 else if full v then 2 * capacity v else capacity v)"
    by blast
  let ?B = "m_storage v1" and ?m = "m_end v1"
  have len: "?m < length ?B" and lenc: "length ?B = m_capacity v1"
    using inv1 lt by (simp_all add: vector_inv_def)
  let ?S = "take (0 + 1) ?B @ take (?m - 0) (drop 0 ?B) @ drop (?m + 1) ?B"
  have sh: "shift_right ?B (int ?m) 0 1 = Inr ?S"
    using shift_right_result[of 0 ?m ?B] len by simp
  have t1: "take (0 + 1) ?B = [?B ! 0]"
    using len by (cases ?B) simp_all
  let ?R = "x # take ?m ?B @ drop (?m + 1) ?B"
  have w: "wr ?S 0 x = Inr ?R"
    unfolding t1 by (simp add: wr_def)
  have lenR: "length ?R = length ?B"
    using wr_length[OF w] shift_right_length[OF sh] by simp
  have "take (?m + 1) ?R = x # take ?m ?B"
    using len by simp
  then have lv: "take (?m + 1) ?R = x # live v"
    using l1 by (simp only: live_def)
  let ?v' = "v1\<lparr>m_storage := ?R, m_end := ?m + 1\<rparr>"
  have pf: "push_front x v = (Inr (), ?v')"
    unfolding push_front_def g and_then_def using sh w by simp
  have "vector_inv ?v'"
    unfolding vector_inv_def using lenR lenc lt by simp
  moreover have "capacity ?v' =
      (if capacity v = 0 then 10 else if full v then 2 * capacity v else capacity v)"
    using c1 by (simp add: capacity_def)
  moreover have "live ?v' = x # live v"
    using lv by (simp add: live_def)
  ultimately show ?thesis using pf by blast
qed

lemma insert_value_spec:
  assumes "vector_inv v" and "0 < capacity v" and "p \<le> m_end v"
  shows "\<exists>v'. insert_value (Iterator (int p)) x v = (Inr (Iterator (int p)), v') \<and>
    vector_inv v' \<and> m_end v' = m_end v + 1 \<and>
    capacity v' = (if full v then 2 * capacity v else capacity v) \<and>
    live v' = take p (live v) @ [x] @ drop p (live v)"
proof -
  let ?g = "if full v then reserve (m_capacity v * 2) v else (Inr (), v)"
  have "\<exists>v1. ?g = (Inr (), v1) \<and> vector_inv v1 \<and> m_end v1 = m_end v \<and> live v1 = live v \<and>
      m_end v1 < m_capacity v1 \<and>
      m_capacity v1 = (if full v then 2 * capacity v else capacity v)"
    using reserve_spec[OF assms(1), of "m_capacity v * 2"] assms
    by (auto simp: vector_inv_def capacity_def full_def)
  then obtain v1 where g: "?g = (Inr (), v1)" and inv1: "vector_inv v1"
    and e1: "m_end v1 = m_end v" and l1: "live v1 = live v" and lt: "m_end v1 < m_capacity v1"
    and c1: "m_capacity v1 = (if full v then 2 * capacity v else capacity v)"
    by blast
  let ?B = "m_storage v1" and ?m = "m_end v1"
  have len: "?m < length ?B" and lenc: "length ?B = m_capacity v1"
    using inv1 lt by (simp_all add: vector_inv_def)
  have pm: "p \<le> ?m" using assms(3) e1 by simp
  let ?S = "take (p + 1) ?B @ take (?m - p) (drop p ?B) @ drop (?m + 1) ?B"
  have sh: "shift_right ?B (int ?m) (int p) 1 = Inr ?S"
    using shift_right_result[of p ?m ?B] len pm by simp
  have t1: "take (p + 1) ?B = take p ?B @ [?B ! p]"
    using len pm by (simp add: take_Suc_conv_app_nth)
  let ?R = "take p ?B @ x # take (?m - p) (drop p ?B) @ drop (?m + 1) ?B"
  have lp: "length (take p ?B) = p" using len pm by simp
  have "?S[p := x] = ?R"
    unfolding t1 using lp by (simp add: list_update_append)
  moreover have "p < length ?S" using len pm by simp
  ultimately have w: "wr ?S (int p) x = Inr ?R"
    by (simp add: wr_def)
  have lenR: "length ?R = length ?B"
    using wr_length[OF w] shift_right_length[OF sh] by simp
  have "take (?m + 1) ?R = take p ?B @ x # take (?m - p) (drop p ?B)"
    using lp len pm by (simp add: Suc_diff_le)
  moreover have "take p (live v) = take p ?B"
    using pm l1[symmetric] by (simp add: live_def min_absorb2)
  moreover have "drop p (live v) = take (?m - p) (drop p ?B)"
    using l1[symmetric] by (simp add: live_def drop_take)
  ultimately have lv: "take (?m + 1) ?R = take p (live v) @ [x] @ drop p (live v)"
    by simp
  let ?v' = "v1\<lparr>m_end := ?m + 1, m_storage := ?R\<rparr>"
  have valid: "\<not> (it_less (Iterator (int p)) (begin_it v) \<or> it_greater (Iterator (int p)) (end_it v))"
    using assms(3) by (simp add: it_defs)
  have iv: "insert_value (Iterator (int p)) x v = (Inr (Iterator (int p)), ?v')"
    unfolding insert_value_def and_then_def Let_def using valid g sh w
    by (simp add: it_defs)
  have "vector_inv ?v'"
    unfolding vector_inv_def using lenR lenc lt by simp
  moreover have "m_end ?v' = m_end v + 1" using e1 by simp
  moreover have "capacity ?v' = (if full v then 2 * capacity v else capacity v)"
    using c1 by (simp add: capacity_def)
  moreover have "live ?v' = take p (live v) @ [x] @ drop p (live v)"
    using lv by (simp add: live_def)
  ultimately show ?thesis using iv by blast
qed

lemma erase_spec:
  assumes "vector_inv v" and "p < m_end v"
  shows "\<exists>v'. erase (Iterator (int p)) v = (Inr (Iterator (int p)), v') \<and>
    vector_inv v' \<and> m_end v' = m_end v - 1 \<and> capacity v' = capacity v \<and>
    live v' = take p (live v) @ drop (p + 1) (live v)"
proof -
  let ?B = "m_storage v" and ?m = "m_end v"
  have len: "?m \<le> length ?B" and lenc: "length ?B = m_capacity v"
    using assms(1) by (simp_all add: vector_inv_def)
  let ?S = "take p ?B @ take (?m - 1 - p) (drop (p + 1) ?B) @ drop (?m - 1) ?B"
  have sh: "shift_left ?B (int p) (int (?m - 1)) 1 = Inr ?S"
    using shift_left_result[of p "?m - 1" ?B] len assms(2) by simp
  have lenS: "length ?S = length ?B"
    using shift_left_length[OF sh] .
  let ?v' = "v\<lparr>m_storage := ?S, m_end := ?m - 1\<rparr>"
  have "int ?m - 1 = int (?m - 1)" using assms(2) by simp
  then have er: "erase (Iterator (int p)) v = (Inr (Iterator (int p)), ?v')"
    unfolding erase_def using sh assms(2) by (simp add: it_defs)
  have lp: "length (take p ?B) = p" using len assms(2) by simp
  have lq: "length (take (?m - 1 - p) (drop (p + 1) ?B)) = ?m - 1 - p"
    using len assms(2) by simp
  have "take (?m - 1) ?S = take p ?B @ take (?m - 1 - p) (drop (p + 1) ?B)"
    using lp lq assms(2) by simp
  moreover have "take p (live v) = take p ?B"
    using assms(2) by (simp add: live_def min_absorb2)
  moreover have "drop (p + 1) (live v) = take (?m - 1 - p) (drop (p + 1) ?B)"
    by (simp add: live_def drop_take)
  ultimately have lv: "take (?m - 1) ?S = take p (live v) @ drop (p + 1) (live v)"
    by simp
  have "vector_inv ?v'"
    unfolding vector_inv_def using lenS lenc len by simp
  moreover have "live ?v' = take p (live v) @ drop (p + 1) (live v)"
    using lv by (simp add: live_def)
  ultimately show ?thesis using er by (auto simp: capacity_def)
qed

lemma insert_then_erase:
  assumes "vector_inv v" and "0 < capacity v" and "p \<le> m_end v"
  shows "\<exists>v1 v2. insert_value (Iterator (int p)) x v = (Inr (Iterator (int p)), v1) \<and>
    erase (Iterator (int p)) v1 = (Inr (Iterator (int p)), v2) \<and>
    size_v v2 = size_v v \<and> live v2 = live v"
proof -
  obtain v1 where i: "insert_value (Iterator (int p)) x v = (Inr (Iterator (int p)), v1)"
    and inv1: "vector_inv v1" and e1: "m_end v1 = m_end v + 1"
    and l1: "live v1 = take p (live v) @ [x] @ drop p (live v)"
    using insert_value_spec[OF assms, of x] by blast
  obtain v2 where e: "erase (Iterator (int p)) v1 = (Inr (Iterator (int p)), v2)"
    and e2: "m_end v2 = m_end v1 - 1"
    and l2: "live v2 = take p (live v1) @ drop (p + 1) (live v1)"
    using erase_spec[OF inv1, of p] e1 assms(3) by auto
  have "length (live v) = m_end v" using assms(1) by (rule length_live)
  then have "live v2 = live v"
    unfolding l2 l1 using assms(3) by simp
  then show ?thesis using i e e1 e2 by (simp add: size_v_def)
qed

lemma pop_front_spec:
  assumes "vector_inv v" and "0 < m_end v"
  shows "(full v \<longrightarrow> fst (pop_front v) = Inl Buffer_overrun) \<and>
    (\<not> full v \<longrightarrow> (\<exists>v'. pop_front v = (Inr (), v') \<and> vector_inv v' \<and>
       m_end v' = m_end v - 1 \<and> capacity v' = capacity v \<and> live v' = tl (live v)))"
proof (intro conjI impI)
  assume "full v"
  then have "shift_left (m_storage v) (int 0) (int (m_end v)) 1 = Inl Buffer_overrun"
    using assms by (intro shift_left_overrun) (simp_all add: vector_inv_def full_def)
  then show "fst (pop_front v) = Inl Buffer_overrun"
    using assms(2) by (simp add: pop_front_def)
next
  assume nf: "\<not> full v"
  let ?B = "m_storage v" and ?m = "m_end v"
  have len: "?m < length ?B" and lenc: "length ?B = m_capacity v"
    using assms(1) nf by (auto simp: vector_inv_def full_def)
  let ?S = "take 0 ?B @ take (?m - 0) (drop (0 + 1) ?B) @ drop ?m ?B"
  have sh: "shift_left ?B (int 0) (int ?m) 1 = Inr ?S"
    using shift_left_result[of 0 ?m ?B] len by simp
  have lenS: "length ?S = length ?B"
    using shift_left_length[OF sh] .
  let ?v' = "v\<lparr>m_storage := ?S, m_end := ?m - 1\<rparr>"
  have pf: "pop_front v = (Inr (), ?v')"
    using sh assms(2) by (simp add: pop_front_def)
  have "take (?m - 1) ?S = take (?m - 1) (drop 1 ?B)"
    using len assms(2) by simp
  also have "\<dots> = tl (take ?m ?B)"
    using assms(2) by (cases ?m) (simp_all add: tl_take drop_Suc)
  finally have lv: "live ?v' = tl (live v)"
    by (simp add: live_def)
  have "vector_inv ?v'"
    unfolding vector_inv_def using lenS lenc len by simp
  then show "\<exists>v'. pop_front v = (Inr (), v') \<and> vector_inv v' \<and>
       m_end v' = m_end v - 1 \<and> capacity v' = capacity v \<and> live v' = tl (live v)"
    using pf lv by (auto simp: capacity_def)
qed

section \<open>Size and capacity\<close>

text \<open>
  Claim C1: in every state that constructions and public operations with valid
  arguments can reach, \<open>0 \<le> size \<le> capacity\<close>.

  The code does not keep this. The single-element \<^verbatim>\<open>insert\<close> grows a full container
  with \<^verbatim>\<open>reserve(m_capacity * 2)\<close>, which does nothing when the capacity is 0, and
  then increments \<^verbatim>\<open>m_end\<close>: inserting at \<^verbatim>\<open>begin()\<close> of a default-constructed
  container leaves size 1 and capacity 0 (and writes the value past the empty buffer).
  The initializer-list \<^verbatim>\<open>insert\<close> reserves only when the container is full: inserting
  two elements at \<^verbatim>\<open>end()\<close> of a container of size 2 and capacity 3 leaves size 4 and
  capacity 3. \<^verbatim>\<open>push_back\<close> and the range \<^verbatim>\<open>insert\<close> handle both cases.
\<close>

theorem insert_leaves_size_above_capacity:
  "size_v (snd (insert_value (begin_it (vector_sized 0)) (5::int) (vector_sized 0))) = 1 \<and>
   capacity (snd (insert_value (begin_it (vector_sized 0)) (5::int) (vector_sized 0))) = 0 \<and>
   size_v (snd (insert_ilist (Iterator 2) [7, 8]
      (snd (pop_back (snd (vector_ilist [1, 2, 3::int])))))) = 4 \<and>
   capacity (snd (insert_ilist (Iterator 2) [7, 8]
      (snd (pop_back (snd (vector_ilist [1, 2, 3::int])))))) = 3"
  by code_simp

text \<open>
  Claim C2: implicit growth, triggered by \<^verbatim>\<open>push_back\<close>, \<^verbatim>\<open>push_front\<close> or the
  single-element \<^verbatim>\<open>insert\<close> when no room remains, takes capacity 0 to capacity 10 and
  a full container of capacity \<open>c > 0\<close> to capacity \<open>2c\<close>.

  For \<^verbatim>\<open>push_back\<close> and \<^verbatim>\<open>push_front\<close> this is \<open>push_back_spec\<close> and
  \<open>push_front_spec\<close>, and \<open>insert_value_spec\<close> gives the doubling for the
  single-element \<^verbatim>\<open>insert\<close> into a full container of capacity above 0. On a
  default-constructed container, which is full with capacity 0, \<^verbatim>\<open>push_back\<close> and
  \<^verbatim>\<open>push_front\<close> reach capacity 10, but the single-element \<^verbatim>\<open>insert\<close> leaves the
  capacity at 0, for want of the test \<^verbatim>\<open>m_capacity == 0\<close> that the other two make.
\<close>

theorem single_insert_keeps_capacity_zero:
  "capacity (snd (push_back (5::int) (vector_sized 0))) = 10 \<and>
   capacity (snd (push_front (5::int) (vector_sized 0))) = 10 \<and>
   full (vector_sized 0 :: int vector) \<and>
   capacity (snd (insert_value (begin_it (vector_sized 0)) (5::int) (vector_sized 0))) = 0"
  by code_simp

text \<open>
  Claim C9: across every operation other than \<^verbatim>\<open>shrink_to_fit\<close> and copy assignment
  from a smaller source, the capacity after the call is at least the capacity before.

  As stated this fails for \<^verbatim>\<open>assign\<close>, which compares the new count with the size,
  not with the capacity, and allocates exactly \<^verbatim>\<open>count_\<close> slots when the count is
  larger than the size: after two \<^verbatim>\<open>pop_back\<close> on \<^verbatim>\<open>{1,2,3,4,5}\<close> (size 3,
  capacity 5), \<^verbatim>\<open>assign(4, 7)\<close> leaves capacity 4. It fails for \<^verbatim>\<open>swap\<close> as well,
  which hands a container the capacity of the other one.
\<close>

theorem capacity_monotone_counterexample:
  "capacity (run Pop_back (run Pop_back (snd (vector_ilist [1, 2, 3, 4, 5::int])))) = 5 \<and>
   capacity (run (Assign 4 7)
      (run Pop_back (run Pop_back (snd (vector_ilist [1, 2, 3, 4, 5::int]))))) = 4 \<and>
   \<not> capacity (run Pop_back (run Pop_back (snd (vector_ilist [1, 2, 3, 4, 5::int]))))
       \<le> capacity (run (Assign 4 7)
           (run Pop_back (run Pop_back (snd (vector_ilist [1, 2, 3, 4, 5::int]))))) \<and>
   \<not> capacity (snd (vector_ilist [1, 2, 3::int]))
       \<le> capacity (run (Swap (vector_sized 0)) (snd (vector_ilist [1, 2, 3::int])))"
  by code_simp

text \<open>
  Claim C9, amended: the capacity after a call is at least the capacity before it for
  every call other than \<^verbatim>\<open>shrink_to_fit\<close>, \<^verbatim>\<open>swap\<close> and an \<^verbatim>\<open>assign\<close> (any of its
  three overloads) of more elements than the size and fewer than the capacity. This
  covers \<^verbatim>\<open>clear\<close>, the pushes and pops, every \<^verbatim>\<open>insert\<close> and \<^verbatim>\<open>erase\<close>,
  \<^verbatim>\<open>reserve\<close>, copy assignment and the remaining cases of \<^verbatim>\<open>assign\<close>, whatever the
  arguments and whether or not the call succeeds.
\<close>

theorem capacity_monotone:
  assumes "\<not> may_lower_capacity c v"
  shows "capacity v \<le> capacity (run c v)"
proof (cases c)
  case (Push_front x)
  with assms show ?thesis
    unfolding capacity_def
    by (auto simp: push_front_def reserve_capacity split: sum.splits intro!: and_then_capacity)
next
  case (Push_back x)
  with assms show ?thesis
    unfolding capacity_def
    by (auto simp: push_back_def reserve_capacity split: sum.splits intro!: and_then_capacity)
next
  case (Insert_value pos x)
  with assms show ?thesis
    unfolding capacity_def
    by (auto simp: insert_value_def Let_def reserve_capacity split: sum.splits
        intro!: and_then_capacity)
next
  case (Insert_range pos src)
  with assms show ?thesis
    unfolding capacity_def
    by (auto simp: insert_range_def Let_def reserve_capacity split: sum.splits
        intro!: and_then_capacity)
next
  case (Insert_ilist pos src)
  with assms show ?thesis
    unfolding capacity_def
    by (auto simp: insert_ilist_def Let_def reserve_capacity split: sum.splits
        intro!: and_then_capacity)
next
  case (Reserve n)
  with assms show ?thesis by (simp add: capacity_def reserve_capacity)
next
  case (Assign n x)
  with assms show ?thesis
    by (auto simp: capacity_def size_v_def assign_def Let_def split: sum.splits)
next
  case (Assign_ilist il)
  with assms show ?thesis
    by (auto simp: capacity_def size_v_def assign_ilist_def Let_def split: sum.splits)
next
  case (Assign_range src)
  with assms show ?thesis
    by (auto simp: capacity_def size_v_def assign_range_def Let_def split: sum.splits)
next
  case (Copy_assign vec)
  with assms show ?thesis
    by (auto simp: capacity_def copy_assign_def split: sum.splits)
qed (use assms in \<open>auto simp: capacity_def clear_def pop_back_def pop_front_def erase_def
    erase_range_def Let_def split: sum.splits\<close>)

theorem capacity_monotone_witness:
  "\<not> may_lower_capacity (Push_back (4::int))
      \<lparr>m_end = 3, m_capacity = 3, m_storage = [1, 2, 3::int]\<rparr> \<and>
   capacity \<lparr>m_end = 3, m_capacity = 3, m_storage = [1, 2, 3::int]\<rparr>
     \<le> capacity (run (Push_back (4::int))
          \<lparr>m_end = 3, m_capacity = 3, m_storage = [1, 2, 3::int]\<rparr>)"
  using capacity_monotone
    [of "Push_back (4::int)" "\<lparr>m_end = 3, m_capacity = 3, m_storage = [1, 2, 3::int]\<rparr>"]
  by simp

section \<open>Iterators\<close>

text \<open>
  Claim C3: iterator equality compares the values pointed to, not the positions. For
  two iterators \<open>a\<close> and \<open>b\<close> into live slots of a container, \<^verbatim>\<open>a == b\<close> returns
  whether the element at \<open>a\<close> equals the element at \<open>b\<close>, and \<^verbatim>\<open>a != b\<close> returns the
  opposite; the positions themselves are not compared. The witness has two iterators
  to different slots that hold the same value and compare equal.
\<close>

theorem iterator_equality_by_value:
  assumes "vector_inv v"
    and "it_ge a (begin_it v)" and "it_less a (end_it v)"
    and "it_ge b (begin_it v)" and "it_less b (end_it v)"
  shows "it_deref (m_storage v) a = Inr (m_storage v ! nat (m_ptr a)) \<and>
    it_deref (m_storage v) b = Inr (m_storage v ! nat (m_ptr b)) \<and>
    it_eq (m_storage v) a b = Inr (m_storage v ! nat (m_ptr a) = m_storage v ! nat (m_ptr b)) \<and>
    it_neq (m_storage v) a b = Inr (m_storage v ! nat (m_ptr a) \<noteq> m_storage v ! nat (m_ptr b))"
  using assms by (simp add: it_eq_def it_neq_def it_defs vector_inv_def rd_def)

theorem iterator_equality_by_value_witness:
  "vector_inv \<lparr>m_end = 3, m_capacity = 3, m_storage = [7, 8, 7::int]\<rparr> \<and>
   Iterator 0 \<noteq> Iterator 2 \<and>
   it_eq [7, 8, 7::int] (Iterator 0) (Iterator 2) = Inr True \<and>
   it_neq [7, 8, 7::int] (Iterator 0) (Iterator 2) = Inr False"
  using iterator_equality_by_value
    [of "\<lparr>m_end = 3, m_capacity = 3, m_storage = [7, 8, 7::int]\<rparr>" "Iterator 0" "Iterator 2"]
  by (simp add: vector_inv_def it_defs)

section \<open>Out-of-range conditions\<close>

text \<open>
  Claim C4: \<^verbatim>\<open>insert\<close> with a position outside \<^verbatim>\<open>[begin(), end()]\<close>, \<^verbatim>\<open>erase\<close>
  with a position outside \<^verbatim>\<open>[begin(), end())\<close>, and \<^verbatim>\<open>erase(first, last)\<close> with
  \<^verbatim>\<open>first > last\<close>, \<^verbatim>\<open>first < begin()\<close> or \<^verbatim>\<open>last > end()\<close> raise Out-of-Range,
  and they do so before anything is reallocated or shifted: the container that the
  failed call leaves is the container it was given, with the same size, capacity and
  buffer.
\<close>

theorem out_of_range_before_any_change:
  "(it_less pos (begin_it v) \<or> it_greater pos (end_it v) \<longrightarrow>
      insert_value pos x v = (Inl Out_of_range, v) \<and>
      insert_range pos src v = (Inl Out_of_range, v) \<and>
      insert_ilist pos src v = (Inl Out_of_range, v)) \<and>
   (it_less pos (begin_it v) \<or> it_ge pos (end_it v) \<longrightarrow>
      erase pos v = (Inl Out_of_range, v)) \<and>
   (it_greater it_first it_last \<or> it_less it_first (begin_it v) \<or>
      it_greater it_last (end_it v) \<longrightarrow>
      erase_range it_first it_last v = (Inl Out_of_range, v))"
  by (auto simp: insert_value_def insert_range_def insert_ilist_def erase_def erase_range_def
      it_defs Let_def)

theorem out_of_range_before_any_change_witness:
  "it_greater (Iterator 4) (end_it \<lparr>m_end = 3, m_capacity = 3, m_storage = [1, 2, 3::int]\<rparr>) \<and>
   it_greater (Iterator 2) (Iterator 1) \<and>
   insert_value (Iterator 4) 9 \<lparr>m_end = 3, m_capacity = 3, m_storage = [1, 2, 3::int]\<rparr> =
     (Inl Out_of_range, \<lparr>m_end = 3, m_capacity = 3, m_storage = [1, 2, 3]\<rparr>) \<and>
   insert_range (Iterator 4) [7, 8] \<lparr>m_end = 3, m_capacity = 3, m_storage = [1, 2, 3::int]\<rparr> =
     (Inl Out_of_range, \<lparr>m_end = 3, m_capacity = 3, m_storage = [1, 2, 3]\<rparr>) \<and>
   insert_ilist (Iterator 4) [7, 8] \<lparr>m_end = 3, m_capacity = 3, m_storage = [1, 2, 3::int]\<rparr> =
     (Inl Out_of_range, \<lparr>m_end = 3, m_capacity = 3, m_storage = [1, 2, 3]\<rparr>) \<and>
   erase (Iterator 4) \<lparr>m_end = 3, m_capacity = 3, m_storage = [1, 2, 3::int]\<rparr> =
     (Inl Out_of_range, \<lparr>m_end = 3, m_capacity = 3, m_storage = [1, 2, 3]\<rparr>) \<and>
   erase_range (Iterator 2) (Iterator 1)
       \<lparr>m_end = 3, m_capacity = 3, m_storage = [1, 2, 3::int]\<rparr> =
     (Inl Out_of_range, \<lparr>m_end = 3, m_capacity = 3, m_storage = [1, 2, 3]\<rparr>)"
  using out_of_range_before_any_change
    [where pos = "Iterator 4" and x = "9::int" and src = "[7, 8::int]"
       and v = "\<lparr>m_end = 3, m_capacity = 3, m_storage = [1, 2, 3::int]\<rparr>"
       and it_first = "Iterator 2" and it_last = "Iterator 1"]
  by (simp add: it_defs)

text \<open>
  Claim C5: \<^verbatim>\<open>at(idx)\<close> raises Out-of-Range exactly when \<open>idx \<ge> size\<close> and otherwise
  returns the element at index \<open>idx\<close>; \<^verbatim>\<open>front()\<close> and \<^verbatim>\<open>back()\<close> raise
  Out-of-Range exactly when the container is empty and otherwise return the first and
  the last live element.
\<close>

theorem checked_access_boundary:
  "(at v idx = Inl Out_of_range \<longleftrightarrow> idx \<ge> size_v v) \<and>
   (front v = Inl Out_of_range \<longleftrightarrow> empty_v v) \<and>
   (back_v v = Inl Out_of_range \<longleftrightarrow> empty_v v) \<and>
   (vector_inv v \<and> idx < size_v v \<longrightarrow> at v idx = Inr (m_storage v ! idx)) \<and>
   (vector_inv v \<and> \<not> empty_v v \<longrightarrow>
      front v = Inr (m_storage v ! 0) \<and> back_v v = Inr (m_storage v ! (size_v v - 1)))"
  by (auto simp: at_def front_def back_v_def size_v_def empty_v_def vector_inv_def rd_def
      nat_diff_distrib')

theorem checked_access_boundary_witness:
  "vector_inv \<lparr>m_end = 2, m_capacity = 4, m_storage = [10, 20, 0, 0::int]\<rparr> \<and>
   1 < size_v \<lparr>m_end = 2, m_capacity = 4, m_storage = [10, 20, 0, 0::int]\<rparr> \<and>
   \<not> empty_v \<lparr>m_end = 2, m_capacity = 4, m_storage = [10, 20, 0, 0::int]\<rparr> \<and>
   at \<lparr>m_end = 2, m_capacity = 4, m_storage = [10, 20, 0, 0::int]\<rparr> 1 = Inr 20 \<and>
   at \<lparr>m_end = 2, m_capacity = 4, m_storage = [10, 20, 0, 0::int]\<rparr> 2 = Inl Out_of_range \<and>
   front \<lparr>m_end = 2, m_capacity = 4, m_storage = [10, 20, 0, 0::int]\<rparr> = Inr 10 \<and>
   back_v \<lparr>m_end = 2, m_capacity = 4, m_storage = [10, 20, 0, 0::int]\<rparr> = Inr 20 \<and>
   front (vector_sized 0 :: int vector) = Inl Out_of_range \<and>
   back_v (vector_sized 0 :: int vector) = Inl Out_of_range"
  using checked_access_boundary
    [of "\<lparr>m_end = 2, m_capacity = 4, m_storage = [10, 20, 0, 0::int]\<rparr>" 1]
    checked_access_boundary
    [of "\<lparr>m_end = 2, m_capacity = 4, m_storage = [10, 20, 0, 0::int]\<rparr>" 2]
    checked_access_boundary [of "vector_sized 0 :: int vector" 0]
  by (simp add: vector_inv_def size_v_def empty_v_def vector_sized_def)

section \<open>Equality and assignment\<close>





section \<open>Shifting elements\<close>


text \<open>
  Claim C10: on a non-empty container \<^verbatim>\<open>pop_front\<close> removes the first element,
  shifts the other \<open>size - 1\<close> elements one slot to the left and decrements the size,
  and every slot its loop reads or writes lies within the allocated capacity.

  The loop runs \<^verbatim>\<open>i\<close> up to \<^verbatim>\<open>m_end - 1\<close> and reads \<^verbatim>\<open>m_storage[i+1]\<close>, so its last
  round reads slot \<^verbatim>\<open>m_end\<close>; on a full container that slot is outside the buffer
  (\<open>pop_front_spec\<close> has both cases: an overrun on every full container, the claimed
  effect on every other non-empty one).
  The container \<^verbatim>\<open>{1,2,3}\<close> built from an initializer list has size and capacity 3,
  and \<^verbatim>\<open>pop_front\<close> on it reads slot 3. The loops in \<^verbatim>\<open>erase\<close> stop one round
  earlier, at \<^verbatim>\<open>end() - 1\<close>.
\<close>

theorem pop_front_overruns_full_buffer:
  "vector_ilist [1, 2, 3::int] =
     (Inr (), \<lparr>m_end = 3, m_capacity = 3, m_storage = [1, 2, 3]\<rparr>) \<and>
   pop_front \<lparr>m_end = 3, m_capacity = 3, m_storage = [1, 2, 3::int]\<rparr> =
     (Inl Buffer_overrun, \<lparr>m_end = 3, m_capacity = 3, m_storage = [1, 2, 3]\<rparr>) \<and>
   erase (Iterator 0) \<lparr>m_end = 3, m_capacity = 3, m_storage = [1, 2, 3::int]\<rparr> =
     (Inr (Iterator 0), \<lparr>m_end = 2, m_capacity = 3, m_storage = [2, 3, 3]\<rparr>)"
  by code_simp

end
